theory Spec2Isabelle
  imports Complex_Main "HOL-Library.Sublist"
begin

section \<open>Numbers\<close>

text \<open>
  JavaScript numbers are IEEE doubles. In the definitions below finite doubles are
  idealised as reals, without rounding and overflow; the rounding is written out in the
  second version of the evaluator further down. The two operations of the animation code that leave the
  finite numbers, \<^verbatim>\<open>%\<close> with a zero divisor (NaN) and \<^verbatim>\<open>/\<close> with a
  zero divisor (NaN or an infinity), give \<open>NonFinite\<close>, which every later arithmetic
  step keeps. The only \<open>NonFinite\<close> value that is ever compared is the NaN of
  \<^verbatim>\<open>diff % 0\<close>, and a comparison with NaN is false.
\<close>

datatype number = Num real | NonFinite

definition js_trunc :: "real \<Rightarrow> int" where
  "js_trunc q = (if 0 \<le> q then \<lfloor>q\<rfloor> else \<lceil>q\<rceil>)"

text \<open>\<^verbatim>\<open>a % b\<close>: the remainder has the sign of the dividend; NaN when \<open>b = 0\<close>.\<close>

definition js_mod :: "real \<Rightarrow> real \<Rightarrow> number" where
  "js_mod a b = (if b = 0 then NonFinite else Num (a - b * of_int (js_trunc (a / b))))"

text \<open>\<^verbatim>\<open>e < b\<close> for a possibly non-finite \<open>e\<close>.\<close>

fun js_lt :: "number \<Rightarrow> real \<Rightarrow> bool" where
  "js_lt (Num a) b = (a < b)"
| "js_lt NonFinite b = False"

fun js_sub :: "number \<Rightarrow> real \<Rightarrow> number" where
  "js_sub (Num a) b = Num (a - b)"
| "js_sub NonFinite b = NonFinite"

fun js_div :: "number \<Rightarrow> real \<Rightarrow> number" where
  "js_div (Num a) b = (if b = 0 then NonFinite else Num (a / b))"
| "js_div NonFinite b = NonFinite"

text \<open>\<^verbatim>\<open>a + (b - a) * alpha\<close> for finite \<open>a\<close>, \<open>b\<close>.\<close>

fun lerp :: "real \<Rightarrow> real \<Rightarrow> number \<Rightarrow> number" where
  "lerp a b (Num alpha) = Num (a + (b - a) * alpha)"
| "lerp a b NonFinite = NonFinite"

section \<open>Data model (types.ts)\<close>

text \<open>
  \<^verbatim>\<open>JointRotation { x; y; z }\<close>. The type parameter separates the rotations the user
  authors (finite: \<open>real\<close>) from the ones playback computes (\<open>number\<close>).
\<close>

record 'n JointRotation =
  rot_x :: 'n
  rot_y :: 'n
  rot_z :: 'n

text \<open>\<^verbatim>\<open>type Pose = Record<string, JointRotation>\<close>\<close>

type_synonym Pose = "string \<rightharpoonup> real JointRotation"

type_synonym NumPose = "string \<rightharpoonup> number JointRotation"

record Keyframe =
  kf_id :: string
  pose :: Pose
  duration :: real

definition rot :: "'n \<Rightarrow> 'n \<Rightarrow> 'n \<Rightarrow> 'n JointRotation" where
  "rot a b c = \<lparr>rot_x = a, rot_y = b, rot_z = c\<rparr>"

text \<open>The entries of \<^verbatim>\<open>INITIAL_POSE\<close>, in the order of the object literal.\<close>

definition INITIAL_POSE_entries :: "(string \<times> real JointRotation) list" where
  "INITIAL_POSE_entries =
    [(''torso'', rot 0 0 0),
     (''head'', rot 0 0 0),
     (''upperArmL'', rot 0 0 (- 0.5)),
     (''lowerArmL'', rot 0 0 0),
     (''upperArmR'', rot 0 0 0.5),
     (''lowerArmR'', rot 0 0 0),
     (''upperLegL'', rot 0 0 (- 0.2)),
     (''lowerLegL'', rot 0 0 0),
     (''upperLegR'', rot 0 0 0.2),
     (''lowerLegR'', rot 0 0 0)]"

definition INITIAL_POSE :: Pose where
  "INITIAL_POSE = map_of INITIAL_POSE_entries"

text \<open>\<^verbatim>\<open>Object.keys(INITIAL_POSE)\<close>\<close>

definition INITIAL_POSE_keys :: "string list" where
  "INITIAL_POSE_keys = map fst INITIAL_POSE_entries"

text \<open>A finite rotation, and a pose of finite rotations, read as JavaScript values.\<close>

definition numRot :: "real JointRotation \<Rightarrow> number JointRotation" where
  "numRot r = rot (Num (rot_x r)) (Num (rot_y r)) (Num (rot_z r))"

definition numPose :: "Pose \<Rightarrow> NumPose" where
  "numPose p = (\<lambda>key. map_option numRot (p key))"

section \<open>AnimationRunner (App.tsx)\<close>

text \<open>\<^verbatim>\<open>keyframes.reduce((acc, kf) => acc + kf.duration, 0)\<close>\<close>

definition totalDuration :: "Keyframe list \<Rightarrow> real" where
  "totalDuration kfs = foldl (\<lambda>acc kf. acc + duration kf) 0 kfs"

text \<open>
  The segment search, lines 107-116: the loop over \<open>i\<close> with the running
  \<^verbatim>\<open>accumulatedTime\<close>. It returns \<^verbatim>\<open>(startFrameIndex, accumulatedTime)\<close>;
  when no iteration breaks, \<^verbatim>\<open>startFrameIndex\<close> keeps its initial 0 and
  \<^verbatim>\<open>accumulatedTime\<close> is the whole sum.
\<close>

function findSegment :: "Keyframe list \<Rightarrow> number \<Rightarrow> nat \<Rightarrow> real \<Rightarrow> nat \<times> real" where
  "findSegment kfs elapsed i accumulatedTime =
     (if i < length kfs then
        (if js_lt elapsed (accumulatedTime + duration (kfs ! i)) then (i, accumulatedTime)
         else findSegment kfs elapsed (i + 1) (accumulatedTime + duration (kfs ! i)))
      else (0, accumulatedTime))"
  by pat_completeness auto
termination
  by (relation "measure (\<lambda>(kfs, elapsed, i, acc). length kfs - i)") auto

declare findSegment.simps [simp del]

text \<open>\<^verbatim>\<open>pose[key] || INITIAL_POSE[key]\<close>\<close>

definition rotationOr :: "Pose \<Rightarrow> string \<Rightarrow> real JointRotation \<Rightarrow> real JointRotation" where
  "rotationOr p key initial = (case p key of Some r \<Rightarrow> r | None \<Rightarrow> initial)"

text \<open>The object literal of lines 133-137.\<close>

definition lerpRot ::
  "real JointRotation \<Rightarrow> real JointRotation \<Rightarrow> number \<Rightarrow> number JointRotation" where
  "lerpRot startRot endRot alpha =
     rot (lerp (rot_x startRot) (rot_x endRot) alpha)
         (lerp (rot_y startRot) (rot_y endRot) alpha)
         (lerp (rot_z startRot) (rot_z endRot) alpha)"

text \<open>
  Lines 127-138: \<^verbatim>\<open>newPose\<close> starts as a copy of \<^verbatim>\<open>INITIAL_POSE\<close>; the
  \<^verbatim>\<open>forEach\<close> over its keys stores the interpolated rotation under each key
  (\<^verbatim>\<open>INITIAL_POSE[key]\<close> is the entry's own value).
\<close>

definition newPose :: "Keyframe \<Rightarrow> Keyframe \<Rightarrow> number \<Rightarrow> NumPose" where
  "newPose startFrame endFrame alpha =
     foldl (\<lambda>p (key, initial).
              p(key \<mapsto> lerpRot (rotationOr (pose startFrame) key initial)
                                (rotationOr (pose endFrame) key initial) alpha))
           (numPose INITIAL_POSE) INITIAL_POSE_entries"

text \<open>
  Lines 88 and 104-138: the pose for the time \<open>diff\<close> since the anchor. The caller has
  checked \<^verbatim>\<open>keyframes.length >= 2\<close>, so both indices are in range.
\<close>

definition evaluate :: "Keyframe list \<Rightarrow> real \<Rightarrow> NumPose" where
  "evaluate kfs diff =
     (let total = totalDuration kfs;
          elapsed = js_mod diff total;
          (startFrameIndex, accumulatedTime) = findSegment kfs elapsed 0 0;
          endFrameIndex = (startFrameIndex + 1) mod length kfs;
          startFrame = kfs ! startFrameIndex;
          endFrame = kfs ! endFrameIndex;
          segmentTime = js_sub elapsed accumulatedTime;
          alpha = js_div segmentTime (duration startFrame)
      in newPose startFrame endFrame alpha)"

section \<open>App state and handlers (App.tsx)\<close>

text \<open>
  The state of \<^verbatim>\<open>App\<close> (the \<^verbatim>\<open>useState\<close> cells the timeline uses) together
  with the two refs of \<^verbatim>\<open>AnimationRunner\<close>. \<open>loopEndCalls\<close> is a ghost counter:
  the number of times \<^verbatim>\<open>onLoopEnd\<close> has been called.
\<close>

record app_state =
  currentPose :: Pose
  keyframes :: "Keyframe list"
  isPlaying :: bool
  isRecording :: bool
  playbackPose :: "NumPose option"
  startTimeRef :: real
  pausedTimeRef :: real
  loopEndCalls :: nat

text \<open>\<^verbatim>\<open>onUpdatePose={setPlaybackPose}\<close>\<close>

definition onUpdatePose :: "NumPose \<Rightarrow> app_state \<Rightarrow> app_state" where
  "onUpdatePose p s = s\<lparr>playbackPose := Some p\<rparr>"

definition handleRecordingLoopEnd :: "app_state \<Rightarrow> app_state" where
  "handleRecordingLoopEnd s =
     s\<lparr>isPlaying := False, isRecording := False, playbackPose := None,
       loopEndCalls := loopEndCalls s + 1\<rparr>"

text \<open>
  The \<^verbatim>\<open>useFrame\<close> callback, lines 84-141, for the clock reading \<open>now\<close> (ms). The
  state updates it queues are applied in the order of the calls.
\<close>

definition useFrame :: "real \<Rightarrow> app_state \<Rightarrow> app_state" where
  "useFrame now s =
     (if \<not> isPlaying s then s
      else if length (keyframes s) < 2 then s
      else
        let total = totalDuration (keyframes s);
            s1 = (if startTimeRef s = 0 then s\<lparr>startTimeRef := now - pausedTimeRef s\<rparr> else s);
            diff = now - startTimeRef s1
        in if isRecording s \<and> diff \<ge> total
           then handleRecordingLoopEnd
                  (onUpdatePose (numPose (pose (keyframes s ! (length (keyframes s) - 1)))) s1)
           else onUpdatePose (evaluate (keyframes s) diff) s1)"

text \<open>The effect of lines 144-148, run after a render in which \<open>isPlaying\<close> changed.\<close>

definition resetTimer :: "app_state \<Rightarrow> app_state \<Rightarrow> app_state" where
  "resetTimer prev s =
     (if isPlaying prev \<noteq> isPlaying s \<and> \<not> isPlaying s then s\<lparr>startTimeRef := 0\<rparr> else s)"

text \<open>\<open>newId\<close> is the value of \<^verbatim>\<open>crypto.randomUUID()\<close>.\<close>

definition handleAddKeyframe :: "string \<Rightarrow> app_state \<Rightarrow> app_state" where
  "handleAddKeyframe newId s =
     s\<lparr>keyframes := keyframes s @ [\<lparr>kf_id = newId, pose = currentPose s, duration = 1000\<rparr>]\<rparr>"

definition handleUpdateKeyframeDuration :: "string \<Rightarrow> real \<Rightarrow> app_state \<Rightarrow> app_state" where
  "handleUpdateKeyframeDuration ident d s =
     s\<lparr>keyframes := map (\<lambda>kf. if kf_id kf = ident then kf\<lparr>duration := d\<rparr> else kf) (keyframes s)\<rparr>"

definition handleDeleteKeyframe :: "string \<Rightarrow> app_state \<Rightarrow> app_state" where
  "handleDeleteKeyframe ident s =
     s\<lparr>keyframes := filter (\<lambda>kf. kf_id kf \<noteq> ident) (keyframes s)\<rparr>"

definition handlePlayToggle :: "app_state \<Rightarrow> app_state" where
  "handlePlayToggle s =
     (if length (keyframes s) < 1 then s
      else
        let s1 = s\<lparr>isPlaying := \<not> isPlaying s\<rparr>
        in if isPlaying s then s1\<lparr>playbackPose := None, isRecording := False\<rparr> else s1)"

text \<open>
  \<^verbatim>\<open>handleExportVideo\<close> signals its refusal by \<^verbatim>\<open>alert(...)\<close> and returns
  before any setter is called.
\<close>

datatype failure = Alert string

definition handleExportVideo :: "app_state \<Rightarrow> failure + app_state" where
  "handleExportVideo s =
     (if length (keyframes s) < 2 then Inl (Alert ''Need at least 2 keyframes to record.'')
      else Inr (s\<lparr>isRecording := True, isPlaying := True\<rparr>))"

text \<open>The state after a handler that may refuse: a refusal leaves it as it was.\<close>

definition state_after :: "app_state \<Rightarrow> failure + app_state \<Rightarrow> app_state" where
  "state_after s r = (case r of Inl e \<Rightarrow> s | Inr s' \<Rightarrow> s')"

text \<open>\<^verbatim>\<open>const renderedPose = isPlaying && playbackPose ? playbackPose : currentPose\<close>\<close>

definition renderedPose :: "app_state \<Rightarrow> NumPose" where
  "renderedPose s =
     (case playbackPose s of
        Some p \<Rightarrow> if isPlaying s then p else numPose (currentPose s)
      | None \<Rightarrow> numPose (currentPose s))"

text \<open>\<^verbatim>\<open>getRot\<close> of the Stickman component: "safely get rotation or default to 0".\<close>

definition getRot :: "NumPose \<Rightarrow> string \<Rightarrow> number \<times> number \<times> number" where
  "getRot p ident =
     (case p ident of Some r \<Rightarrow> (rot_x r, rot_y r, rot_z r) | None \<Rightarrow> (Num 0, Num 0, Num 0))"

text \<open>
  The timeline controls of the toolbar and the frames strip, each with its
  \<^verbatim>\<open>disabled\<close> attribute: a disabled control delivers no event to its handler.
\<close>

datatype control =
    PlayButton
  | AddKeyframeButton string
  | ExportVideoButton
  | ClearAllButton
  | DurationInput string real
  | DeleteButton string

fun disabled :: "control \<Rightarrow> app_state \<Rightarrow> bool" where
  "disabled PlayButton s = (length (keyframes s) < 1 \<or> isRecording s)"
| "disabled (AddKeyframeButton newId) s = isPlaying s"
| "disabled ExportVideoButton s = (length (keyframes s) < 2 \<or> isPlaying s)"
| "disabled ClearAllButton s = False"
| "disabled (DurationInput ident d) s = isPlaying s"
| "disabled (DeleteButton ident) s = isPlaying s"

fun handler :: "control \<Rightarrow> app_state \<Rightarrow> app_state" where
  "handler PlayButton s = handlePlayToggle s"
| "handler (AddKeyframeButton newId) s = handleAddKeyframe newId s"
| "handler ExportVideoButton s = state_after s (handleExportVideo s)"
| "handler ClearAllButton s = s\<lparr>keyframes := [], isPlaying := False\<rparr>"
| "handler (DurationInput ident d) s = handleUpdateKeyframeDuration ident d s"
| "handler (DeleteButton ident) s = handleDeleteKeyframe ident s"

definition user_event :: "control \<Rightarrow> app_state \<Rightarrow> app_state" where
  "user_event c s = (if disabled c s then s else resetTimer s (handler c s))"

text \<open>A run of rendering ticks, each followed by the effect.\<close>

fun ticks :: "real list \<Rightarrow> app_state \<Rightarrow> app_state" where
  "ticks [] s = s"
| "ticks (now # rest) s = ticks rest (resetTimer s (useFrame now s))"

section \<open>The rounding of doubles\<close>

text \<open>
  IEEE binary64 rounding, to the nearest value with a 53-bit significand, ties to the even
  significand, for the numbers whose exponent is in the normal range: overflow to an
  infinity and the subnormal numbers are not modelled.
\<close>

text \<open>\<open>2\<close> to the power \<open>e\<close>.\<close>

definition pow2 :: "int \<Rightarrow> real" where
  "pow2 e = (if 0 \<le> e then 2 ^ nat e else 1 / 2 ^ nat (- e))"

text \<open>
  The binary exponent of a positive number: the \<open>e\<close> with
  \<open>2 ^ e \<le> x < 2 ^ (e + 1)\<close>, found by halving a number from 1 on and by doubling a
  number below 1.
\<close>

function expo_up :: "real \<Rightarrow> int" where
  "expo_up x = (if x < 2 then 0 else expo_up (x / 2) + 1)"
  by pat_completeness auto
termination
proof (relation "measure (\<lambda>x. nat \<lceil>x\<rceil>)")
  show "wf (measure (\<lambda>x. nat \<lceil>x\<rceil>))" by simp
next
  fix x :: real
  assume "\<not> x < 2"
  then have "x / 2 \<le> x - 1" by simp
  then have "\<lceil>x / 2\<rceil> \<le> \<lceil>x - 1\<rceil>" by (rule ceiling_mono)
  then have "\<lceil>x / 2\<rceil> < \<lceil>x\<rceil>" by simp
  moreover have "0 < \<lceil>x\<rceil>" using \<open>\<not> x < 2\<close> by (simp add: ceiling_less_iff not_less)
  ultimately show "(x / 2, x) \<in> measure (\<lambda>x. nat \<lceil>x\<rceil>)" by simp
qed

function expo_down :: "real \<Rightarrow> int" where
  "expo_down x = (if x \<le> 0 \<or> 1 \<le> x then 0 else expo_down (2 * x) - 1)"
  by pat_completeness auto
termination
proof (relation "measure (\<lambda>x. nat \<lceil>1 / x\<rceil>)")
  show "wf (measure (\<lambda>x. nat \<lceil>1 / x\<rceil>))" by simp
next
  fix x :: real
  assume a: "\<not> (x \<le> 0 \<or> 1 \<le> x)"
  then have x: "0 < x" "x < 1" by simp_all
  then have y: "1 < 1 / x" by simp
  then have c: "2 \<le> \<lceil>1 / x\<rceil>" by linarith
  have "1 / (2 * x) = (1 / x) / 2" by simp
  also have "\<dots> \<le> of_int \<lceil>1 / x\<rceil> / 2" by (simp add: divide_right_mono)
  also have "\<dots> \<le> of_int (\<lceil>1 / x\<rceil> - 1)" using c by simp
  finally have "1 / (2 * x) \<le> of_int (\<lceil>1 / x\<rceil> - 1)" .
  then have "\<lceil>1 / (2 * x)\<rceil> \<le> \<lceil>1 / x\<rceil> - 1" by (rule ceiling_le)
  then show "(2 * x, x) \<in> measure (\<lambda>x. nat \<lceil>1 / x\<rceil>)" using c x by simp
qed

declare expo_up.simps [simp del] expo_down.simps [simp del]

definition expo :: "real \<Rightarrow> int" where
  "expo x = (if 1 \<le> x then expo_up x else expo_down x)"

text \<open>The nearest integer, a tie going to the even one.\<close>

definition round_even :: "real \<Rightarrow> int" where
  "round_even q =
     (let f = \<lfloor>q\<rfloor>; r = q - of_int f
      in if r < 1 / 2 then f else if 1 / 2 < r then f + 1 else if even f then f else f + 1)"

text \<open>The double nearest to \<open>x\<close>: \<open>x\<close> rounded to a multiple of its unit in the last place.\<close>

definition double :: "real \<Rightarrow> real" where
  "double x =
     (if x = 0 then 0
      else let u = pow2 (expo \<bar>x\<bar> - 52) in of_int (round_even (x / u)) * u)"

section \<open>The evaluator with rounding\<close>

text \<open>
  The evaluator of \<^verbatim>\<open>AnimationRunner\<close> once more, line by line as above, with the
  rounding of each arithmetic operation written out: \<open>rnd\<close> is applied to the result
  of every \<^verbatim>\<open>+\<close>, \<^verbatim>\<open>-\<close>, \<^verbatim>\<open>*\<close>, \<^verbatim>\<open>/\<close> and \<^verbatim>\<open>%\<close> and
  to the number literals of \<^verbatim>\<open>INITIAL_POSE\<close>. With \<open>double\<close> for \<open>rnd\<close> this is
  the arithmetic of the code; with the identity it is the exact evaluator above. The
  quotient inside \<^verbatim>\<open>%\<close> is the exact one: the remainder of two doubles is computed
  without an intermediate rounding.
\<close>

definition fl_totalDuration :: "(real \<Rightarrow> real) \<Rightarrow> Keyframe list \<Rightarrow> real" where
  "fl_totalDuration rnd kfs = foldl (\<lambda>acc kf. rnd (acc + duration kf)) 0 kfs"

definition fl_mod :: "(real \<Rightarrow> real) \<Rightarrow> real \<Rightarrow> real \<Rightarrow> number" where
  "fl_mod rnd a b =
     (if b = 0 then NonFinite else Num (rnd (a - b * of_int (js_trunc (a / b)))))"

fun fl_sub :: "(real \<Rightarrow> real) \<Rightarrow> number \<Rightarrow> real \<Rightarrow> number" where
  "fl_sub rnd (Num a) b = Num (rnd (a - b))"
| "fl_sub rnd NonFinite b = NonFinite"

fun fl_div :: "(real \<Rightarrow> real) \<Rightarrow> number \<Rightarrow> real \<Rightarrow> number" where
  "fl_div rnd (Num a) b = (if b = 0 then NonFinite else Num (rnd (a / b)))"
| "fl_div rnd NonFinite b = NonFinite"

fun fl_lerp :: "(real \<Rightarrow> real) \<Rightarrow> real \<Rightarrow> real \<Rightarrow> number \<Rightarrow> number" where
  "fl_lerp rnd a b (Num alpha) = Num (rnd (a + rnd (rnd (b - a) * alpha)))"
| "fl_lerp rnd a b NonFinite = NonFinite"

function fl_findSegment ::
  "(real \<Rightarrow> real) \<Rightarrow> Keyframe list \<Rightarrow> number \<Rightarrow> nat \<Rightarrow> real \<Rightarrow> nat \<times> real" where
  "fl_findSegment rnd kfs elapsed i accumulatedTime =
     (if i < length kfs then
        (if js_lt elapsed (rnd (accumulatedTime + duration (kfs ! i))) then (i, accumulatedTime)
         else fl_findSegment rnd kfs elapsed (i + 1) (rnd (accumulatedTime + duration (kfs ! i))))
      else (0, accumulatedTime))"
  by pat_completeness auto
termination
  by (relation "measure (\<lambda>(rnd, kfs, elapsed, i, acc). length kfs - i)") auto

declare fl_findSegment.simps [simp del]

definition fl_lerpRot ::
  "(real \<Rightarrow> real) \<Rightarrow> real JointRotation \<Rightarrow> real JointRotation \<Rightarrow> number \<Rightarrow> number JointRotation" where
  "fl_lerpRot rnd startRot endRot alpha =
     rot (fl_lerp rnd (rot_x startRot) (rot_x endRot) alpha)
         (fl_lerp rnd (rot_y startRot) (rot_y endRot) alpha)
         (fl_lerp rnd (rot_z startRot) (rot_z endRot) alpha)"

definition fl_INITIAL_POSE_entries :: "(real \<Rightarrow> real) \<Rightarrow> (string \<times> real JointRotation) list" where
  "fl_INITIAL_POSE_entries rnd =
     map (\<lambda>(key, r). (key, rot (rnd (rot_x r)) (rnd (rot_y r)) (rnd (rot_z r)))) INITIAL_POSE_entries"

definition fl_newPose :: "(real \<Rightarrow> real) \<Rightarrow> Keyframe \<Rightarrow> Keyframe \<Rightarrow> number \<Rightarrow> NumPose" where
  "fl_newPose rnd startFrame endFrame alpha =
     foldl (\<lambda>p (key, initial).
              p(key \<mapsto> fl_lerpRot rnd (rotationOr (pose startFrame) key initial)
                                (rotationOr (pose endFrame) key initial) alpha))
           (numPose (map_of (fl_INITIAL_POSE_entries rnd))) (fl_INITIAL_POSE_entries rnd)"

definition fl_evaluate :: "(real \<Rightarrow> real) \<Rightarrow> Keyframe list \<Rightarrow> real \<Rightarrow> NumPose" where
  "fl_evaluate rnd kfs diff =
     (let total = fl_totalDuration rnd kfs;
          elapsed = fl_mod rnd diff total;
          (startFrameIndex, accumulatedTime) = fl_findSegment rnd kfs elapsed 0 0;
          endFrameIndex = (startFrameIndex + 1) mod length kfs;
          startFrame = kfs ! startFrameIndex;
          endFrame = kfs ! endFrameIndex;
          segmentTime = fl_sub rnd elapsed accumulatedTime;
          alpha = fl_div rnd segmentTime (duration startFrame)
      in fl_newPose rnd startFrame endFrame alpha)"

section \<open>Notions used to state the properties\<close>


section \<open>Example data\<close>

text \<open>The initial values of the \<^verbatim>\<open>useState\<close> cells and of the refs.\<close>

definition initial_state :: app_state where
  "initial_state =
     \<lparr>currentPose = INITIAL_POSE, keyframes = [], isPlaying = False, isRecording = False,
      playbackPose = None, startTimeRef = 0, pausedTimeRef = 0, loopEndCalls = 0\<rparr>"

definition pose_raised :: Pose where
  "pose_raised = INITIAL_POSE(''upperArmL'' \<mapsto> rot 0 0 1)"

definition pose_partial :: Pose where
  "pose_partial = INITIAL_POSE(''upperArmL'' := None)"

definition kf_a :: Keyframe where
  "kf_a = \<lparr>kf_id = ''a'', pose = INITIAL_POSE, duration = 1000\<rparr>"

definition kf_b :: Keyframe where
  "kf_b = \<lparr>kf_id = ''b'', pose = pose_raised, duration = 500\<rparr>"

definition kf_p :: Keyframe where
  "kf_p = \<lparr>kf_id = ''p'', pose = pose_partial, duration = 1000\<rparr>"

text \<open>Two keyframes with the durations 1000 and 500: one loop lasts 1500 ms.\<close>

definition example_timeline :: "Keyframe list" where
  "example_timeline = [kf_a, kf_b]"

text \<open>A timeline whose first pose omits a joint.\<close>

definition partial_timeline :: "Keyframe list" where
  "partial_timeline = [kf_p, kf_a]"

text \<open>
  Playing, respectively recording, the example timeline, anchored at the clock reading
  100; the pose on the canvas for editing is the rest pose.
\<close>

definition playing_state :: app_state where
  "playing_state =
     initial_state\<lparr>keyframes := example_timeline, isPlaying := True, startTimeRef := 100\<rparr>"

definition recording_state :: app_state where
  "recording_state = playing_state\<lparr>isRecording := True\<rparr>"

text \<open>One keyframe added to the initial state; the example timeline, not playing.\<close>

definition one_keyframe_state :: app_state where
  "one_keyframe_state = handleAddKeyframe ''a'' initial_state"

definition idle_state :: app_state where
  "idle_state = initial_state\<lparr>keyframes := example_timeline\<rparr>"

text \<open>
  A timeline for the arithmetic of doubles: the head turns from 0 to 1 about the x axis
  within 1024 ms, and back within 512 ms.
\<close>

definition pose_nod :: Pose where
  "pose_nod = INITIAL_POSE(''head'' \<mapsto> rot 1 0 0)"

definition fp_timeline :: "Keyframe list" where
  "fp_timeline =
     [\<lparr>kf_id = ''a'', pose = INITIAL_POSE, duration = 1024\<rparr>,
      \<lparr>kf_id = ''b'', pose = pose_nod, duration = 512\<rparr>]"

text \<open>
  \<open>d_tenth\<close> is the double nearest to 0.1; \<open>1536 + d_rem\<close> is the double nearest to
  \<open>d_tenth + 1536\<close>.
\<close>

definition d_tenth :: real where
  "d_tenth = 3602879701896397 / 2 ^ 55"

definition d_rem :: real where
  "d_rem = 219902325555 / 2 ^ 41"

section \<open>Basic facts\<close>





lemma js_mod_nonneg:
  assumes "0 \<le> t" "0 < T"
  shows "js_mod t T = Num (t - T * of_int \<lfloor>t / T\<rfloor>)"
    and "0 \<le> t - T * of_int \<lfloor>t / T\<rfloor>" and "t - T * of_int \<lfloor>t / T\<rfloor> < T"
proof -
  from assms have q: "0 \<le> t / T" by simp
  then show "js_mod t T = Num (t - T * of_int \<lfloor>t / T\<rfloor>)"
    using assms by (simp add: js_mod_def js_trunc_def)
  have "of_int \<lfloor>t / T\<rfloor> \<le> t / T" by simp
  then have "T * of_int \<lfloor>t / T\<rfloor> \<le> T * (t / T)" using assms(2)
    by (intro mult_left_mono) simp_all
  then have "T * of_int \<lfloor>t / T\<rfloor> \<le> t" using assms(2) by simp
  then show "0 \<le> t - T * of_int \<lfloor>t / T\<rfloor>" by simp
  have "t / T < of_int \<lfloor>t / T\<rfloor> + 1" by linarith
  then have "t / T * T < (of_int \<lfloor>t / T\<rfloor> + 1) * T" using assms(2)
    by (rule mult_strict_right_mono)
  then have "t < (of_int \<lfloor>t / T\<rfloor> + 1) * T" using assms(2) by simp
  then show "t - T * of_int \<lfloor>t / T\<rfloor> < T" by (simp add: algebra_simps)
qed

lemma js_mod_periodic:
  assumes "0 \<le> t" "0 < T"
  shows "js_mod (t + real k * T) T = js_mod t T"
proof -
  have "0 \<le> t + real k * T" using assms by simp
  moreover have "(t + real k * T) / T = t / T + of_int (int k)" using assms by (simp add: field_simps)
  then have "\<lfloor>(t + real k * T) / T\<rfloor> = \<lfloor>t / T\<rfloor> + int k" by (simp only: floor_add_int)
  ultimately show ?thesis using assms
    by (simp add: js_mod_nonneg(1) algebra_simps)
qed


lemma foldl_upd_lookup:
  "distinct (map fst es) \<Longrightarrow>
   foldl (\<lambda>p (k, v). p(k \<mapsto> f k v)) m es key =
     (case map_of es key of Some v \<Rightarrow> Some (f key v) | None \<Rightarrow> m key)"
proof (induction es arbitrary: m)
  case Nil
  then show ?case by simp
next
  case (Cons e es)
  obtain k v where e: "e = (k, v)" by (cases e)
  show ?case
  proof (cases "key = k")
    case True
    then have "map_of es key = None" using Cons.prems e
      by (simp add: map_of_eq_None_iff)
    then show ?thesis using Cons e True by simp
  next
    case False
    then show ?thesis using Cons e by simp
  qed
qed

lemma INITIAL_POSE_distinct: "distinct (map fst INITIAL_POSE_entries)"
  by (simp add: INITIAL_POSE_entries_def)

lemma newPose_lookup:
  "newPose startFrame endFrame alpha key =
     map_option (\<lambda>initial. lerpRot (rotationOr (pose startFrame) key initial)
                               (rotationOr (pose endFrame) key initial) alpha)
       (INITIAL_POSE key)"
  unfolding newPose_def
  by (simp add: foldl_upd_lookup [OF INITIAL_POSE_distinct] INITIAL_POSE_def numPose_def
      split: option.split)

lemma dom_newPose: "dom (newPose startFrame endFrame alpha) = set INITIAL_POSE_keys"
proof -
  have "dom (newPose startFrame endFrame alpha) = dom INITIAL_POSE"
    by (auto simp: newPose_lookup dom_def)
  then show ?thesis
    by (simp add: INITIAL_POSE_def INITIAL_POSE_keys_def dom_map_of_conv_image_fst)
qed



lemma INITIAL_POSE_entry:
  "(key, initial) \<in> set INITIAL_POSE_entries \<Longrightarrow> INITIAL_POSE key = Some initial"
  by (simp add: INITIAL_POSE_def INITIAL_POSE_distinct)


lemma dom_INITIAL_POSE: "dom INITIAL_POSE = set INITIAL_POSE_keys"
  by (simp add: INITIAL_POSE_def INITIAL_POSE_keys_def dom_map_of_conv_image_fst)


lemma dom_evaluate: "dom (evaluate kfs diff) = set INITIAL_POSE_keys"
  by (simp add: evaluate_def Let_def dom_newPose split: prod.split)

subsection \<open>The example timeline\<close>

lemma ex_total: "totalDuration example_timeline = 1500"
  by (simp add: totalDuration_def example_timeline_def kf_a_def kf_b_def)

lemma ex_len: "length example_timeline = 2"
  by (simp add: example_timeline_def)


lemma ex_nth: "example_timeline ! 0 = kf_a" "example_timeline ! Suc 0 = kf_b"
  by (simp_all add: example_timeline_def)






lemma rec_fields:
  "isPlaying recording_state" "isRecording recording_state"
  "keyframes recording_state = example_timeline" "startTimeRef recording_state = 100"
  "currentPose recording_state = INITIAL_POSE" "loopEndCalls recording_state = 0"
  by (simp_all add: recording_state_def playing_state_def initial_state_def)

lemma play_fields:
  "isPlaying playing_state" "\<not> isRecording playing_state"
  "keyframes playing_state = example_timeline" "startTimeRef playing_state = 100"
  by (simp_all add: playing_state_def initial_state_def)

lemma numPose_raised_neq: "numPose INITIAL_POSE \<noteq> numPose pose_raised"
proof
  assume "numPose INITIAL_POSE = numPose pose_raised"
  then have "numPose INITIAL_POSE ''upperArmL'' = numPose pose_raised ''upperArmL''" by simp
  then show False
    by (simp add: numPose_def INITIAL_POSE_def INITIAL_POSE_entries_def pose_raised_def numRot_def rot_def)
qed

lemma ticks_idle: "\<not> isPlaying s \<Longrightarrow> ticks nows s = s"
  by (induction nows) (simp_all add: useFrame_def resetTimer_def)

lemma findSegment_index: "0 < length kfs \<Longrightarrow> fst (findSegment kfs elapsed i acc) < length kfs"
proof (induction kfs elapsed i acc rule: findSegment.induct)
  case (1 kfs elapsed i accumulatedTime)
  then show ?case
    by (simp add: findSegment.simps [of kfs elapsed i accumulatedTime])
qed

lemma one_fields:
  "keyframes one_keyframe_state = [\<lparr>kf_id = ''a'', pose = INITIAL_POSE, duration = 1000\<rparr>]"
  "\<not> isPlaying one_keyframe_state" "\<not> isRecording one_keyframe_state"
  by (simp_all add: one_keyframe_state_def handleAddKeyframe_def initial_state_def)

lemma idle_fields:
  "keyframes idle_state = example_timeline" "\<not> isPlaying idle_state" "\<not> isRecording idle_state"
  by (simp_all add: idle_state_def initial_state_def)

lemma filter_unique:
  assumes "distinct (map f xs)" "x \<in> set xs"
  shows "\<exists>ys zs. xs = ys @ x # zs \<and> filter (\<lambda>k. f k \<noteq> f x) xs = ys @ zs \<and>
           (\<forall>k\<in>set ys \<union> set zs. f k \<noteq> f x)"
proof -
  from assms(2) obtain ys zs where xs: "xs = ys @ x # zs" by (auto dest: split_list)
  have "distinct (map f (ys @ x # zs))" using assms(1) by (simp only: xs)
  then have nin: "f x \<notin> f ` set ys" "f x \<notin> f ` set zs" by auto
  have d: "\<forall>k\<in>set ys \<union> set zs. f k \<noteq> f x"
  proof
    fix k assume "k \<in> set ys \<union> set zs"
    then have "f k \<in> f ` set ys \<or> f k \<in> f ` set zs" by auto
    then show "f k \<noteq> f x" using nin by metis
  qed
  have "filter (\<lambda>k. f k \<noteq> f x) ys = ys" "filter (\<lambda>k. f k \<noteq> f x) zs = zs"
    using d by (simp_all add: filter_id_conv)
  then have "filter (\<lambda>k. f k \<noteq> f x) xs = ys @ zs"
    by (simp add: xs)
  with xs d show ?thesis by blast
qed

lemma INITIAL_POSE_keys_list:
  "INITIAL_POSE_keys =
     [''torso'', ''head'', ''upperArmL'', ''lowerArmL'', ''upperArmR'', ''lowerArmR'',
      ''upperLegL'', ''lowerLegL'', ''upperLegR'', ''lowerLegR'']"
  by (simp add: INITIAL_POSE_keys_def INITIAL_POSE_entries_def)

lemma newPose_extra_key:
  assumes "key \<notin> set INITIAL_POSE_keys"
  shows "newPose (startFrame\<lparr>pose := (pose startFrame)(key \<mapsto> r)\<rparr>)
           (endFrame\<lparr>pose := (pose endFrame)(key \<mapsto> r')\<rparr>) alpha =
         newPose startFrame endFrame alpha"
proof
  fix k
  show "newPose (startFrame\<lparr>pose := (pose startFrame)(key \<mapsto> r)\<rparr>)
           (endFrame\<lparr>pose := (pose endFrame)(key \<mapsto> r')\<rparr>) alpha k =
         newPose startFrame endFrame alpha k"
  proof (cases "INITIAL_POSE k")
    case None
    then show ?thesis by (simp add: newPose_lookup)
  next
    case (Some initial)
    then have "k \<in> set INITIAL_POSE_keys" using dom_INITIAL_POSE by blast
    with assms have "k \<noteq> key" by blast
    then show ?thesis by (simp add: newPose_lookup rotationOr_def)
  qed
qed

subsection \<open>Rounding\<close>

lemma pow2_powr: "pow2 e = 2 powr (of_int e)"
  by (simp add: pow2_def powr_int)

lemma pow2_pos: "0 < pow2 e"
  by (simp add: pow2_powr)

lemma pow2_Suc: "pow2 (e + 1) = 2 * pow2 e"
  by (simp add: pow2_powr powr_add)

lemma pow2_less_iff: "pow2 a < pow2 b \<longleftrightarrow> a < b"
  by (simp add: pow2_powr)

lemma pow2_0: "pow2 0 = 1"
  by (simp add: pow2_def)

lemma expo_up_bounds: "1 \<le> x \<Longrightarrow> pow2 (expo_up x) \<le> x \<and> x < pow2 (expo_up x + 1)"
proof (induction x rule: expo_up.induct)
  case (1 x)
  show ?case
  proof (cases "x < 2")
    case True
    with 1(2) show ?thesis by (simp add: expo_up.simps [of x] pow2_def)
  next
    case False
    then have "1 \<le> x / 2" by simp
    from 1(1) [OF False this]
    have ih: "pow2 (expo_up (x / 2)) \<le> x / 2" "x / 2 < pow2 (expo_up (x / 2) + 1)"
      by simp_all
    have e: "expo_up x = expo_up (x / 2) + 1" using False by (simp add: expo_up.simps [of x])
    have "pow2 (expo_up (x / 2) + 1) \<le> x"
      using ih(1) pow2_Suc [of "expo_up (x / 2)"] by linarith
    moreover have "x < pow2 (expo_up (x / 2) + 1 + 1)"
      using ih(2) pow2_Suc [of "expo_up (x / 2) + 1"] by linarith
    ultimately show ?thesis by (simp only: e)
  qed
qed

lemma expo_down_bounds:
  "0 < x \<Longrightarrow> x < 1 \<Longrightarrow> pow2 (expo_down x) \<le> x \<and> x < pow2 (expo_down x + 1)"
proof (induction x rule: expo_down.induct)
  case (1 x)
  have n: "\<not> (x \<le> 0 \<or> 1 \<le> x)" using 1(2,3) by simp
  show ?case
  proof (cases "2 * x < 1")
    case True
    from 1(1) [OF n _ True] 1(2)
    have ih: "pow2 (expo_down (2 * x)) \<le> 2 * x" "2 * x < pow2 (expo_down (2 * x) + 1)"
      by simp_all
    have e: "expo_down x = expo_down (2 * x) - 1" using n by (simp add: expo_down.simps [of x])
    have p: "pow2 (expo_down (2 * x)) = 2 * pow2 (expo_down (2 * x) - 1)"
      using pow2_Suc [of "expo_down (2 * x) - 1"] by simp
    have q: "pow2 (expo_down (2 * x) + 1) = 2 * pow2 (expo_down (2 * x))"
      by (rule pow2_Suc)
    have "pow2 (expo_down (2 * x) - 1) \<le> x" using ih(1) p by linarith
    moreover have "x < pow2 (expo_down (2 * x) - 1 + 1)" using ih(2) p q by simp
    ultimately show ?thesis by (simp only: e)
  next
    case False
    then have "expo_down (2 * x) = 0" by (simp add: expo_down.simps [of "2 * x"])
    then show ?thesis
      using n False 1(3) by (simp add: expo_down.simps [of x] pow2_def)
  qed
qed

lemma expo_bounds: "0 < x \<Longrightarrow> pow2 (expo x) \<le> x \<and> x < pow2 (expo x + 1)"
  using expo_up_bounds [of x] expo_down_bounds [of x]
  by (cases "1 \<le> x") (simp_all add: expo_def)

lemma expo_eq:
  assumes "pow2 e \<le> x" "x < pow2 (e + 1)"
  shows "expo x = e"
proof -
  have x: "0 < x" using assms(1) pow2_pos [of e] by linarith
  from expo_bounds [OF x] have b: "pow2 (expo x) \<le> x" "x < pow2 (expo x + 1)" by simp_all
  have "pow2 e < pow2 (expo x + 1)" using assms(1) b(2) by linarith
  then have 1: "e < expo x + 1" by (simp only: pow2_less_iff)
  have "pow2 (expo x) < pow2 (e + 1)" using assms(2) b(1) by linarith
  then have 2: "expo x < e + 1" by (simp only: pow2_less_iff)
  from 1 2 show ?thesis by simp
qed

lemma double_eval:
  assumes "pow2 e \<le> \<bar>x\<bar>" "\<bar>x\<bar> < pow2 (e + 1)"
  shows "double x = of_int (round_even (x / pow2 (e - 52))) * pow2 (e - 52)"
proof -
  have "x \<noteq> 0" using assms(1) pow2_pos [of e] by auto
  then show ?thesis by (simp add: double_def expo_eq [OF assms] Let_def)
qed

lemma double_0: "double 0 = 0"
  by (simp add: double_def)

text \<open>
  Some values: a literal that is not a double, and the two kinds of tie above
  \<open>2 ^ 53\<close>, where the doubles are the even integers.
\<close>

lemma double_examples:
  "double (- (1 / 5)) = - (3602879701896397 / 2 ^ 54)"
  "double (2 ^ 53 + 1) = 2 ^ 53"
  "double (2 ^ 53 + 3) = 2 ^ 53 + 4"
  by (simp_all add: double_eval [of "- 3"] double_eval [of 53] pow2_def round_even_def)

subsection \<open>The evaluator with rounding\<close>

lemma fl_mod_js_mod:
  "fl_mod rnd a b = (case js_mod a b of Num v \<Rightarrow> Num (rnd v) | NonFinite \<Rightarrow> NonFinite)"
  by (simp add: fl_mod_def js_mod_def)

lemma fl_mod_periodic:
  assumes "0 \<le> t" "0 < T"
  shows "fl_mod rnd (t + real k * T) T = fl_mod rnd t T"
  by (simp only: fl_mod_js_mod js_mod_periodic [OF assms])

lemma exact_totalDuration: "fl_totalDuration (\<lambda>x. x) kfs = totalDuration kfs"
  by (simp add: fl_totalDuration_def totalDuration_def)

lemma exact_mod: "fl_mod (\<lambda>x. x) a b = js_mod a b"
  by (simp add: fl_mod_def js_mod_def)

lemma exact_findSegment: "fl_findSegment (\<lambda>x. x) kfs elapsed i acc = findSegment kfs elapsed i acc"
proof (induction kfs elapsed i acc rule: findSegment.induct)
  case (1 kfs elapsed i accumulatedTime)
  then show ?case
    by (simp add: findSegment.simps [of kfs elapsed i accumulatedTime]
        fl_findSegment.simps [of _ kfs elapsed i accumulatedTime])
qed

lemma exact_sub: "fl_sub (\<lambda>x. x) e a = js_sub e a"
  by (cases e) simp_all

lemma exact_div: "fl_div (\<lambda>x. x) e a = js_div e a"
  by (cases e) simp_all

lemma exact_lerp: "fl_lerp (\<lambda>x. x) a b alpha = lerp a b alpha"
  by (cases alpha) simp_all

lemma exact_entries: "fl_INITIAL_POSE_entries (\<lambda>x. x) = INITIAL_POSE_entries"
  by (simp add: fl_INITIAL_POSE_entries_def INITIAL_POSE_entries_def rot_def)

lemma exact_newPose: "fl_newPose (\<lambda>x. x) startFrame endFrame alpha = newPose startFrame endFrame alpha"
  by (simp add: fl_newPose_def newPose_def exact_entries fl_lerpRot_def lerpRot_def exact_lerp
      INITIAL_POSE_def)

lemma exact_evaluate: "fl_evaluate (\<lambda>x. x) kfs diff = evaluate kfs diff"
  by (simp add: fl_evaluate_def evaluate_def exact_totalDuration exact_mod exact_findSegment
      exact_sub exact_div exact_newPose)

lemma fl_entries_distinct: "distinct (map fst (fl_INITIAL_POSE_entries rnd))"
  by (simp add: fl_INITIAL_POSE_entries_def INITIAL_POSE_entries_def)

lemma fl_newPose_lookup:
  "fl_newPose rnd startFrame endFrame alpha key =
     map_option (\<lambda>initial. fl_lerpRot rnd (rotationOr (pose startFrame) key initial)
                               (rotationOr (pose endFrame) key initial) alpha)
       (map_of (fl_INITIAL_POSE_entries rnd) key)"
  unfolding fl_newPose_def
  by (simp add: foldl_upd_lookup [OF fl_entries_distinct] numPose_def split: option.split)

lemma fl_head_entry: "map_of (fl_INITIAL_POSE_entries rnd) ''head'' = Some (rot (rnd 0) (rnd 0) (rnd 0))"
  by (simp add: fl_INITIAL_POSE_entries_def INITIAL_POSE_entries_def rot_def)

lemma head_poses:
  "INITIAL_POSE ''head'' = Some (rot 0 0 0)" "pose_nod ''head'' = Some (rot 1 0 0)"
  by (simp_all add: INITIAL_POSE_def INITIAL_POSE_entries_def pose_nod_def)

lemma fp_nth:
  "fp_timeline ! 0 = \<lparr>kf_id = ''a'', pose = INITIAL_POSE, duration = 1024\<rparr>"
  "fp_timeline ! Suc 0 = \<lparr>kf_id = ''b'', pose = pose_nod, duration = 512\<rparr>"
  "length fp_timeline = 2"
  by (simp_all add: fp_timeline_def)

lemma double_values:
  "double 1 = 1" "double 1024 = 1024" "double 1536 = 1536"
  "double (1 / 10) = d_tenth"
  "double d_tenth = d_tenth"
  "double (d_tenth + 1536) = 1536 + d_rem"
  "double d_rem = d_rem"
  "double (d_tenth / 1024) = d_tenth / 1024"
  "double (d_rem / 1024) = d_rem / 1024"
  by (simp_all add: double_eval [of 0] double_eval [of 10] double_eval [of "- 4"]
      double_eval [of "- 14"] pow2_def round_even_def d_tenth_def d_rem_def)

lemma d_facts:
  "0 \<le> d_tenth" "d_tenth < 1024" "d_rem < 1024" "d_tenth / 1024 \<noteq> d_rem / 1024"
  "js_trunc (d_tenth / 1536) = 0" "js_trunc ((1536 + d_rem) / 1536) = 1"
  by (simp_all add: d_tenth_def d_rem_def js_trunc_def)

lemma fp_total: "fl_totalDuration double fp_timeline = 1536"
  by (simp add: fl_totalDuration_def fp_timeline_def double_values)

lemma fp_head:
  assumes "double a = a"
  shows "fl_newPose double (fp_timeline ! 0) (fp_timeline ! Suc 0) (Num a) ''head'' =
           Some (rot (Num a) (Num 0) (Num 0))"
  by (simp add: fl_newPose_lookup fl_head_entry fp_nth head_poses rotationOr_def fl_lerpRot_def
      rot_def double_0 double_values assms)

lemma fp_at_t: 
  "fl_evaluate double fp_timeline d_tenth ''head'' = Some (rot (Num (d_tenth / 1024)) (Num 0) (Num 0))"
proof -
  have m: "fl_mod double d_tenth 1536 = Num d_tenth"
    by (simp add: fl_mod_def d_facts double_values)
  have s: "fl_findSegment double fp_timeline (Num d_tenth) 0 0 = (0, 0)"
    by (simp add: fl_findSegment.simps [of _ fp_timeline] fp_nth double_values d_facts)
  have "fl_evaluate double fp_timeline d_tenth =
          fl_newPose double (fp_timeline ! 0) (fp_timeline ! Suc 0) (Num (d_tenth / 1024))"
    by (simp add: fl_evaluate_def fp_total m s fp_nth double_values)
  then show ?thesis by (simp only: fp_head [OF double_values(8)])
qed

lemma fp_at_t_plus_T: 
  "fl_evaluate double fp_timeline (1536 + d_rem) ''head'' =
     Some (rot (Num (d_rem / 1024)) (Num 0) (Num 0))"
proof -
  have m: "fl_mod double (1536 + d_rem) 1536 = Num d_rem"
    by (simp add: fl_mod_def d_facts double_values)
  have s: "fl_findSegment double fp_timeline (Num d_rem) 0 0 = (0, 0)"
    by (simp add: fl_findSegment.simps [of _ fp_timeline] fp_nth double_values d_facts)
  have "fl_evaluate double fp_timeline (1536 + d_rem) =
          fl_newPose double (fp_timeline ! 0) (fp_timeline ! Suc 0) (Num (d_rem / 1024))"
    by (simp add: fl_evaluate_def fp_total m s fp_nth double_values)
  then show ?thesis by (simp only: fp_head [OF double_values(9)])
qed

lemma ex_double_values:
  "double 1000 = 1000" "double 1500 = 1500" "double 3000 = 3000" "double 3250 = 3250"
  by (simp_all add: double_eval [of 9] double_eval [of 10] double_eval [of 11] pow2_def round_even_def)

lemma ex_fl_total: "fl_totalDuration double example_timeline = 1500"
  by (simp add: fl_totalDuration_def example_timeline_def kf_a_def kf_b_def ex_double_values)

section \<open>The timeline evaluator\<close>




text \<open>
  Claim C4, as amended. Let \<open>T\<close> be the total duration as the code's
  \<^verbatim>\<open>reduce\<close> computes it. For a timeline of at least two keyframes with \<open>T > 0\<close>,
  an elapsed time \<open>t \<ge> 0\<close> and a natural number \<open>k\<close> such that \<open>k * T\<close> and
  \<open>t + k * T\<close> are computed without rounding, the evaluator gives the same pose at
  \<open>t\<close> and at \<open>t + k * T\<close>. This holds for every rounding function, that of doubles
  among them.
\<close>

theorem fl_evaluate_periodic:
  assumes "2 \<le> length kfs" and "0 < fl_totalDuration rnd kfs" and "0 \<le> t"
    and "rnd (real k * fl_totalDuration rnd kfs) = real k * fl_totalDuration rnd kfs"
    and "rnd (t + real k * fl_totalDuration rnd kfs) = t + real k * fl_totalDuration rnd kfs"
  shows "fl_evaluate rnd kfs (rnd (t + rnd (real k * fl_totalDuration rnd kfs))) =
         fl_evaluate rnd kfs t"
proof -
  have "rnd (t + rnd (real k * fl_totalDuration rnd kfs)) = t + real k * fl_totalDuration rnd kfs"
    by (simp only: assms(4,5))
  then show ?thesis
    using assms(2,3) by (simp add: fl_evaluate_def fl_mod_periodic)
qed

text \<open>The example timeline in doubles, at 250 ms and two loops later.\<close>

theorem fl_evaluate_periodic_witness:
  "2 \<le> length example_timeline \<and> 0 < fl_totalDuration double example_timeline \<and>
   (0::real) \<le> 250 \<and>
   double (real 2 * fl_totalDuration double example_timeline) = 3000 \<and>
   double (250 + real 2 * fl_totalDuration double example_timeline) = 3250 \<and>
   fl_evaluate double example_timeline 3250 = fl_evaluate double example_timeline 250"
  using fl_evaluate_periodic [of example_timeline double 250 2]
  by (simp add: ex_len ex_fl_total ex_double_values)

text \<open>
  Where the sum \<open>t + k * T\<close> is rounded, the two poses can differ. With the durations
  1024 and 512 and the double nearest to 0.1 for \<open>t\<close>, the sum \<open>t + 1536\<close> is not a
  double; its nearest double leaves the remainder \<open>d_rem\<close> instead of \<open>t\<close>, and the
  head's rotation one loop later is \<open>d_rem / 1024\<close> instead of \<open>t / 1024\<close>.
\<close>

theorem fl_evaluate_rounding_counterexample:
  "2 \<le> length fp_timeline \<and> 0 < fl_totalDuration double fp_timeline \<and>
   (0::real) \<le> double (1 / 10) \<and>
   fl_evaluate double fp_timeline
     (double (double (1 / 10) + double (real 1 * fl_totalDuration double fp_timeline))) \<noteq>
   fl_evaluate double fp_timeline (double (1 / 10)) \<and>
   fl_evaluate double fp_timeline
     (double (double (1 / 10) + double (real 1 * fl_totalDuration double fp_timeline))) ''head'' =
     Some (rot (Num (d_rem / 1024)) (Num 0) (Num 0)) \<and>
   fl_evaluate double fp_timeline (double (1 / 10)) ''head'' =
     Some (rot (Num (d_tenth / 1024)) (Num 0) (Num 0))"
proof -
  have "fl_evaluate double fp_timeline (1536 + d_rem) ''head'' \<noteq>
        fl_evaluate double fp_timeline d_tenth ''head''"
    using d_facts(4) by (simp only: fp_at_t fp_at_t_plus_T) (simp add: rot_def)
  then have ne: "fl_evaluate double fp_timeline (1536 + d_rem) \<noteq>
        fl_evaluate double fp_timeline d_tenth"
    by auto
  show ?thesis
    using ne d_facts(1)
    by (simp add: fp_total double_values fp_at_t fp_at_t_plus_T fp_nth)
qed

section \<open>The end of a recording\<close>

text \<open>
  Claim C2. While recording, a tick whose time since the anchor has reached the total
  duration calls \<^verbatim>\<open>onUpdatePose\<close> with the last keyframe's pose, which alone would
  make that pose the rendered one, and then \<^verbatim>\<open>onLoopEnd\<close> once; it evaluates no
  wrapped frame. The handler \<^verbatim>\<open>handleRecordingLoopEnd\<close> clears both flags and sets
  \<^verbatim>\<open>playbackPose\<close> to null, so after the tick the snapped pose is gone: what is
  rendered is the editing pose \<^verbatim>\<open>currentPose\<close>, not the last keyframe's pose.
\<close>

theorem recording_loop_end:
  assumes "isPlaying s" and "isRecording s" and "2 \<le> length (keyframes s)"
    and "startTimeRef s \<noteq> 0" and "totalDuration (keyframes s) \<le> now - startTimeRef s"
  shows "useFrame now s =
           handleRecordingLoopEnd
             (onUpdatePose (numPose (pose (keyframes s ! (length (keyframes s) - 1)))) s) \<and>
         renderedPose (onUpdatePose (numPose (pose (keyframes s ! (length (keyframes s) - 1)))) s) =
           numPose (pose (keyframes s ! (length (keyframes s) - 1))) \<and>
         useFrame now s =
           s\<lparr>isPlaying := False, isRecording := False, playbackPose := None,
             loopEndCalls := loopEndCalls s + 1\<rparr> \<and>
         renderedPose (useFrame now s) = numPose (currentPose s)"
proof -
  have 1: "useFrame now s =
           handleRecordingLoopEnd
             (onUpdatePose (numPose (pose (keyframes s ! (length (keyframes s) - 1)))) s)"
    using assms by (simp add: useFrame_def Let_def)
  have 2: "renderedPose (onUpdatePose (numPose (pose (keyframes s ! (length (keyframes s) - 1)))) s) =
           numPose (pose (keyframes s ! (length (keyframes s) - 1)))"
    using assms(1) by (simp add: onUpdatePose_def renderedPose_def)
  have 3: "useFrame now s =
           s\<lparr>isPlaying := False, isRecording := False, playbackPose := None,
             loopEndCalls := loopEndCalls s + 1\<rparr>"
    by (simp add: 1 handleRecordingLoopEnd_def onUpdatePose_def)
  have 4: "renderedPose (useFrame now s) = numPose (currentPose s)"
    by (simp add: 3 renderedPose_def)
  show ?thesis by (intro conjI 1 2 3 4)
qed

text \<open>
  Recording the example timeline, 1500 ms after the anchor: the rendered pose is the rest
  pose of the editor, while the last keyframe holds the raised arm.
\<close>

theorem recording_loop_end_witness:
  "isPlaying recording_state \<and> isRecording recording_state \<and>
   2 \<le> length (keyframes recording_state) \<and> startTimeRef recording_state \<noteq> 0 \<and>
   totalDuration (keyframes recording_state) \<le> 1600 - startTimeRef recording_state \<and>
   \<not> isPlaying (useFrame 1600 recording_state) \<and>
   \<not> isRecording (useFrame 1600 recording_state) \<and>
   loopEndCalls (useFrame 1600 recording_state) = 1 \<and>
   playbackPose (useFrame 1600 recording_state) = None \<and>
   renderedPose (useFrame 1600 recording_state) = numPose INITIAL_POSE \<and>
   renderedPose (useFrame 1600 recording_state) \<noteq>
     numPose (pose (keyframes recording_state ! (length (keyframes recording_state) - 1)))"
proof -
  have h: "totalDuration (keyframes recording_state) \<le> 1600 - startTimeRef recording_state"
    "2 \<le> length (keyframes recording_state)" "startTimeRef recording_state \<noteq> 0"
    by (simp_all add: rec_fields ex_total ex_len)
  note inst = recording_loop_end [OF rec_fields(1) rec_fields(2) h(2) h(3) h(1)]
  have e: "useFrame 1600 recording_state =
          recording_state\<lparr>isPlaying := False, isRecording := False, playbackPose := None,
            loopEndCalls := loopEndCalls recording_state + 1\<rparr>"
    and r: "renderedPose (useFrame 1600 recording_state) = numPose (currentPose recording_state)"
    using inst by blast+
  show ?thesis
    using numPose_raised_neq
    by (simp add: r) (simp add: e rec_fields ex_total ex_len ex_nth kf_b_def)
qed

section \<open>Editing the timeline during playback\<close>

text \<open>
  Claim C3, as amended. While \<^verbatim>\<open>isPlaying\<close> is set, as it is when playing and
  when recording, the controls that add a keyframe, change a duration and delete a
  keyframe are disabled: an event on one of them leaves the whole state, and so the
  timeline, as it was. No error value is produced.
\<close>

theorem timeline_controls_disabled_while_playing:
  assumes "isPlaying s"
  shows "user_event (AddKeyframeButton newId) s = s \<and>
         user_event (DurationInput ident d) s = s \<and>
         user_event (DeleteButton ident) s = s"
  using assms by (simp add: user_event_def)

theorem timeline_controls_disabled_witness:
  "isPlaying playing_state \<and>
   keyframes (user_event (AddKeyframeButton ''c'') playing_state) = example_timeline \<and>
   keyframes (user_event (DurationInput ''a'' 250) playing_state) = example_timeline \<and>
   keyframes (user_event (DeleteButton ''a'') playing_state) = example_timeline"
  using timeline_controls_disabled_while_playing [of playing_state "''c''" "''a''" 250]
  by (simp add: play_fields)

text \<open>
  The handlers themselves do not look at \<^verbatim>\<open>isPlaying\<close>: called while playing,
  each of them changes the timeline, and none signals an error.
\<close>

theorem store_handlers_unguarded_counterexample:
  "isPlaying playing_state \<and>
   keyframes (handleAddKeyframe ''c'' playing_state) \<noteq> keyframes playing_state \<and>
   keyframes (handleUpdateKeyframeDuration ''a'' 250 playing_state) \<noteq> keyframes playing_state \<and>
   keyframes (handleDeleteKeyframe ''a'' playing_state) \<noteq> keyframes playing_state \<and>
   length (keyframes (handleAddKeyframe ''c'' playing_state)) = 3 \<and>
   length (keyframes playing_state) = 2 \<and>
   map duration (keyframes (handleUpdateKeyframeDuration ''a'' 250 playing_state)) = [250, 500] \<and>
   map duration (keyframes playing_state) = [1000, 500] \<and>
   map kf_id (keyframes (handleDeleteKeyframe ''a'' playing_state)) = [''b''] \<and>
   map kf_id (keyframes playing_state) = [''a'', ''b'']"
proof -
  have v: "length (keyframes (handleAddKeyframe ''c'' playing_state)) = 3"
    "length (keyframes playing_state) = 2"
    "map duration (keyframes (handleUpdateKeyframeDuration ''a'' 250 playing_state)) = [250, 500]"
    "map duration (keyframes playing_state) = [1000, 500]"
    "map kf_id (keyframes (handleDeleteKeyframe ''a'' playing_state)) = [''b'']"
    "map kf_id (keyframes playing_state) = [''a'', ''b'']"
    by (simp_all add: play_fields handleAddKeyframe_def handleUpdateKeyframeDuration_def
        handleDeleteKeyframe_def example_timeline_def kf_a_def kf_b_def)
  have "length (keyframes (handleAddKeyframe ''c'' playing_state)) \<noteq>
        length (keyframes playing_state)"
    by (simp add: v)
  then have 1: "keyframes (handleAddKeyframe ''c'' playing_state) \<noteq> keyframes playing_state"
    by auto
  have "map duration (keyframes (handleUpdateKeyframeDuration ''a'' 250 playing_state)) \<noteq>
        map duration (keyframes playing_state)"
    by (simp add: v)
  then have 2: "keyframes (handleUpdateKeyframeDuration ''a'' 250 playing_state) \<noteq>
        keyframes playing_state"
    by auto
  have "map kf_id (keyframes (handleDeleteKeyframe ''a'' playing_state)) \<noteq>
        map kf_id (keyframes playing_state)"
    by (simp add: v)
  then have 3: "keyframes (handleDeleteKeyframe ''a'' playing_state) \<noteq> keyframes playing_state"
    by auto
  show ?thesis
    using 1 2 3 v play_fields(1) by (intro conjI)
qed

section \<open>Joints missing from a pose\<close>

text \<open>
  Claim C5, as amended. In the interpolation a joint missing from the start or the end
  keyframe's pose is replaced by its \<^verbatim>\<open>INITIAL_POSE\<close> rotation before
  interpolating; every canonical joint of the evaluated pose is defined, and with at least
  two keyframes both keyframe indices are in range, so the evaluation does not fail. In
  the rendering, \<^verbatim>\<open>getRot\<close> gives a missing joint the zero rotation, not the
  \<^verbatim>\<open>INITIAL_POSE\<close> one.
\<close>

theorem missing_joint_fallbacks:
  "(pose startFrame key = None \<and> (key, initial) \<in> set INITIAL_POSE_entries \<longrightarrow>
      newPose startFrame endFrame alpha key =
        Some (lerpRot initial (rotationOr (pose endFrame) key initial) alpha)) \<and>
   (pose endFrame key = None \<and> (key, initial) \<in> set INITIAL_POSE_entries \<longrightarrow>
      newPose startFrame endFrame alpha key =
        Some (lerpRot (rotationOr (pose startFrame) key initial) initial alpha)) \<and>
   (\<forall>(k, i) \<in> set INITIAL_POSE_entries. evaluate kfs diff k \<noteq> None) \<and>
   (2 \<le> length kfs \<longrightarrow>
      fst (findSegment kfs elapsed 0 0) < length kfs \<and>
      (fst (findSegment kfs elapsed 0 0) + 1) mod length kfs < length kfs) \<and>
   (p key = None \<longrightarrow> getRot p key = (Num 0, Num 0, Num 0))"
proof (intro conjI)
  show "pose startFrame key = None \<and> (key, initial) \<in> set INITIAL_POSE_entries \<longrightarrow>
      newPose startFrame endFrame alpha key =
        Some (lerpRot initial (rotationOr (pose endFrame) key initial) alpha)"
    by (auto simp: newPose_lookup INITIAL_POSE_entry rotationOr_def)
  show "pose endFrame key = None \<and> (key, initial) \<in> set INITIAL_POSE_entries \<longrightarrow>
      newPose startFrame endFrame alpha key =
        Some (lerpRot (rotationOr (pose startFrame) key initial) initial alpha)"
    by (auto simp: newPose_lookup INITIAL_POSE_entry rotationOr_def)
  show "\<forall>(k, i) \<in> set INITIAL_POSE_entries. evaluate kfs diff k \<noteq> None"
  proof -
    have "k \<in> dom (evaluate kfs diff)" if "(k, i) \<in> set INITIAL_POSE_entries" for k i
    proof -
      have "k \<in> fst ` set INITIAL_POSE_entries" using that by force
      then show ?thesis by (simp add: dom_evaluate INITIAL_POSE_keys_def)
    qed
    then show ?thesis by blast
  qed
  show "2 \<le> length kfs \<longrightarrow>
      fst (findSegment kfs elapsed 0 0) < length kfs \<and>
      (fst (findSegment kfs elapsed 0 0) + 1) mod length kfs < length kfs"
  proof
    assume "2 \<le> length kfs"
    then have "0 < length kfs" by linarith
    then show "fst (findSegment kfs elapsed 0 0) < length kfs \<and>
      (fst (findSegment kfs elapsed 0 0) + 1) mod length kfs < length kfs"
      by (simp add: findSegment_index)
  qed
  show "p key = None \<longrightarrow> getRot p key = (Num 0, Num 0, Num 0)"
    by (simp add: getRot_def)
qed

theorem missing_joint_fallbacks_witness:
  "pose kf_p ''upperArmL'' = None \<and>
   newPose kf_p kf_b (Num (1 / 2)) ''upperArmL'' = Some (rot (Num 0) (Num 0) (Num (1 / 4))) \<and>
   evaluate partial_timeline 0 ''upperArmL'' \<noteq> None \<and>
   fst (findSegment partial_timeline NonFinite 0 0) < 2 \<and>
   getRot (numPose (pose kf_p)) ''upperArmL'' = (Num 0, Num 0, Num 0)"
  using missing_joint_fallbacks [of kf_p "''upperArmL''" "rot 0 0 (- 0.5)" kf_b "Num (1 / 2)"
      partial_timeline 0 NonFinite "numPose (pose kf_p)"]
  by (simp add: kf_p_def pose_partial_def INITIAL_POSE_entries_def partial_timeline_def
      numPose_def rotationOr_def kf_b_def pose_raised_def lerpRot_def rot_def)

text \<open>
  In the rendering the fallback is not the rest pose: for a pose without
  \<^verbatim>\<open>upperArmL\<close> the rendered rotation is zero, while the rest pose has
  \<open>z = -0.5\<close> there.
\<close>

theorem getRot_missing_joint_counterexample:
  "numPose pose_partial ''upperArmL'' = None \<and>
   getRot (numPose pose_partial) ''upperArmL'' = (Num 0, Num 0, Num 0) \<and>
   getRot (numPose INITIAL_POSE) ''upperArmL'' = (Num 0, Num 0, Num (- (1 / 2))) \<and>
   getRot (numPose pose_partial) ''upperArmL'' \<noteq> getRot (numPose INITIAL_POSE) ''upperArmL''"
  by (simp add: getRot_def numPose_def pose_partial_def INITIAL_POSE_def INITIAL_POSE_entries_def
      numRot_def rot_def)

section \<open>The canonical joints of an evaluated pose\<close>

text \<open>
  Claim C9. For every start keyframe, end keyframe and \<open>alpha\<close>, the pose built by
  lines 127-138 has exactly the ten keys of \<^verbatim>\<open>INITIAL_POSE\<close>, and so has every
  evaluated pose and the pose a playing tick hands to \<^verbatim>\<open>onUpdatePose\<close>. A key
  outside the ten is absent from the result, and adding it to the keyframes' poses does
  not change the result.
\<close>

theorem newPose_canonical_keys:
  "dom (newPose startFrame endFrame alpha) = set INITIAL_POSE_keys \<and>
   INITIAL_POSE_keys =
     [''torso'', ''head'', ''upperArmL'', ''lowerArmL'', ''upperArmR'', ''lowerArmR'',
      ''upperLegL'', ''lowerLegL'', ''upperLegR'', ''lowerLegR''] \<and>
   distinct INITIAL_POSE_keys \<and> card (dom (newPose startFrame endFrame alpha)) = 10 \<and>
   dom (evaluate kfs diff) = set INITIAL_POSE_keys \<and>
   (key \<notin> set INITIAL_POSE_keys \<longrightarrow>
      newPose startFrame endFrame alpha key = None \<and>
      newPose (startFrame\<lparr>pose := (pose startFrame)(key \<mapsto> r)\<rparr>)
        (endFrame\<lparr>pose := (pose endFrame)(key \<mapsto> r')\<rparr>) alpha =
      newPose startFrame endFrame alpha) \<and>
   (isPlaying s \<and> 2 \<le> length (keyframes s) \<and> \<not> isRecording s \<longrightarrow>
      (\<exists>p. playbackPose (useFrame now s) = Some p \<and> dom p = set INITIAL_POSE_keys))"
proof (intro conjI)
  show "dom (newPose startFrame endFrame alpha) = set INITIAL_POSE_keys"
    by (rule dom_newPose)
  show "INITIAL_POSE_keys =
     [''torso'', ''head'', ''upperArmL'', ''lowerArmL'', ''upperArmR'', ''lowerArmR'',
      ''upperLegL'', ''lowerLegL'', ''upperLegR'', ''lowerLegR'']"
    by (rule INITIAL_POSE_keys_list)
  show d: "distinct INITIAL_POSE_keys"
    using INITIAL_POSE_distinct by (simp add: INITIAL_POSE_keys_def)
  have "length INITIAL_POSE_keys = 10" by (simp add: INITIAL_POSE_keys_list)
  then show "card (dom (newPose startFrame endFrame alpha)) = 10"
    using d by (simp add: dom_newPose distinct_card)
  show "dom (evaluate kfs diff) = set INITIAL_POSE_keys"
    by (rule dom_evaluate)
  show "key \<notin> set INITIAL_POSE_keys \<longrightarrow>
      newPose startFrame endFrame alpha key = None \<and>
      newPose (startFrame\<lparr>pose := (pose startFrame)(key \<mapsto> r)\<rparr>)
        (endFrame\<lparr>pose := (pose endFrame)(key \<mapsto> r')\<rparr>) alpha =
      newPose startFrame endFrame alpha"
    using dom_newPose [of startFrame endFrame alpha] newPose_extra_key by blast
  show "isPlaying s \<and> 2 \<le> length (keyframes s) \<and> \<not> isRecording s \<longrightarrow>
      (\<exists>p. playbackPose (useFrame now s) = Some p \<and> dom p = set INITIAL_POSE_keys)"
    by (simp add: useFrame_def Let_def onUpdatePose_def dom_evaluate)
qed

theorem newPose_canonical_keys_witness:
  "''tail'' \<notin> set INITIAL_POSE_keys \<and>
   newPose (kf_a\<lparr>pose := (pose kf_a)(''tail'' \<mapsto> rot 1 2 3)\<rparr>) kf_b (Num (1 / 2)) ''tail'' = None \<and>
   isPlaying playing_state \<and> 2 \<le> length (keyframes playing_state) \<and> \<not> isRecording playing_state \<and>
   (\<exists>p. playbackPose (useFrame 350 playing_state) = Some p \<and> dom p = set INITIAL_POSE_keys)"
proof -
  have t: "''tail'' \<notin> set INITIAL_POSE_keys" by (simp add: INITIAL_POSE_keys_list)
  note inst = newPose_canonical_keys [of "kf_a\<lparr>pose := (pose kf_a)(''tail'' \<mapsto> rot 1 2 3)\<rparr>"
      kf_b "Num (1 / 2)" example_timeline 0 "''tail''" "rot 1 2 3" "rot 1 2 3" playing_state 350]
  have 1: "newPose (kf_a\<lparr>pose := (pose kf_a)(''tail'' \<mapsto> rot 1 2 3)\<rparr>) kf_b (Num (1 / 2)) ''tail'' = None"
    using inst t by blast
  have p: "isPlaying playing_state \<and> 2 \<le> length (keyframes playing_state) \<and> \<not> isRecording playing_state"
    by (simp add: play_fields ex_len)
  then have 2: "\<exists>p. playbackPose (useFrame 350 playing_state) = Some p \<and> dom p = set INITIAL_POSE_keys"
    using inst by blast
  show ?thesis using t 1 p 2 by blast
qed

section \<open>The keyframe store\<close>

text \<open>
  Claim C7. \<^verbatim>\<open>handleUpdateKeyframeDuration\<close> changes nothing of the state but the
  timeline; it keeps the length, the ids and the poses of the timeline, position by
  position, replaces the duration exactly where the id matches, and leaves the timeline
  as it is when no keyframe has the id. \<^verbatim>\<open>handleDeleteKeyframe\<close> keeps exactly the
  keyframes with another id, in their order, and removes nothing when no keyframe has the
  id. With distinct ids the timeline splits around the one matching keyframe: the update
  changes its duration alone, the deletion removes it alone.
\<close>

theorem keyframe_store_frame:
  fixes s :: app_state and ident :: string and ms :: real
  defines "kfs \<equiv> keyframes s"
    and "upd \<equiv> keyframes (handleUpdateKeyframeDuration ident ms s)"
    and "del \<equiv> keyframes (handleDeleteKeyframe ident s)"
  shows "handleUpdateKeyframeDuration ident ms s = s\<lparr>keyframes := upd\<rparr> \<and>
     length upd = length kfs \<and> map kf_id upd = map kf_id kfs \<and> map pose upd = map pose kfs \<and>
     (\<forall>i<length kfs. upd ! i =
        (if kf_id (kfs ! i) = ident then (kfs ! i)\<lparr>duration := ms\<rparr> else kfs ! i)) \<and>
     (ident \<notin> kf_id ` set kfs \<longrightarrow> upd = kfs) \<and>
     (distinct (map kf_id kfs) \<longrightarrow>
        (\<forall>k\<in>set kfs. kf_id k = ident \<longrightarrow>
           (\<exists>ys zs. kfs = ys @ k # zs \<and> upd = ys @ k\<lparr>duration := ms\<rparr> # zs \<and> del = ys @ zs))) \<and>
     handleDeleteKeyframe ident s = s\<lparr>keyframes := del\<rparr> \<and>
     del = filter (\<lambda>kf. kf_id kf \<noteq> ident) kfs \<and>
     subseq del kfs \<and> set del = {kf \<in> set kfs. kf_id kf \<noteq> ident} \<and>
     (ident \<notin> kf_id ` set kfs \<longrightarrow> del = kfs)"
proof -
  have u: "upd = map (\<lambda>kf. if kf_id kf = ident then kf\<lparr>duration := ms\<rparr> else kf) kfs"
    by (simp add: upd_def kfs_def handleUpdateKeyframeDuration_def)
  have d: "del = filter (\<lambda>kf. kf_id kf \<noteq> ident) kfs"
    by (simp add: del_def kfs_def handleDeleteKeyframe_def)
  have 1: "handleUpdateKeyframeDuration ident ms s = s\<lparr>keyframes := upd\<rparr>"
    by (simp add: upd_def handleUpdateKeyframeDuration_def)
  have 2: "length upd = length kfs" by (simp add: u)
  have 3: "map kf_id upd = map kf_id kfs" by (simp add: u)
  have 4: "map pose upd = map pose kfs" by (simp add: u)
  have 5: "\<forall>i<length kfs. upd ! i =
        (if kf_id (kfs ! i) = ident then (kfs ! i)\<lparr>duration := ms\<rparr> else kfs ! i)"
    by (simp add: u)
  have 6: "ident \<notin> kf_id ` set kfs \<longrightarrow> upd = kfs"
    unfolding u by (intro impI map_idI) auto
  have 7: "distinct (map kf_id kfs) \<longrightarrow>
        (\<forall>k\<in>set kfs. kf_id k = ident \<longrightarrow>
           (\<exists>ys zs. kfs = ys @ k # zs \<and> upd = ys @ k\<lparr>duration := ms\<rparr> # zs \<and> del = ys @ zs))"
  proof (intro impI ballI)
    fix k assume dist: "distinct (map kf_id kfs)" and k: "k \<in> set kfs" and id: "kf_id k = ident"
    from filter_unique [OF dist k] obtain ys zs where
      yz: "kfs = ys @ k # zs" "filter (\<lambda>j. kf_id j \<noteq> kf_id k) kfs = ys @ zs"
        "\<forall>j\<in>set ys \<union> set zs. kf_id j \<noteq> kf_id k"
      by blast
    have "map (\<lambda>kf. if kf_id kf = ident then kf\<lparr>duration := ms\<rparr> else kf) ys = ys"
      using yz(3) id by (intro map_idI) auto
    moreover have "map (\<lambda>kf. if kf_id kf = ident then kf\<lparr>duration := ms\<rparr> else kf) zs = zs"
      using yz(3) id by (intro map_idI) auto
    ultimately have "upd = ys @ k\<lparr>duration := ms\<rparr> # zs"
      using id by (simp add: u yz(1))
    moreover have "del = ys @ zs" using yz(2) id by (simp add: d)
    ultimately show "\<exists>ys zs. kfs = ys @ k # zs \<and> upd = ys @ k\<lparr>duration := ms\<rparr> # zs \<and> del = ys @ zs"
      using yz(1) by blast
  qed
  have 8: "handleDeleteKeyframe ident s = s\<lparr>keyframes := del\<rparr>"
    by (simp add: del_def handleDeleteKeyframe_def)
  have 9: "subseq del kfs" by (simp add: d)
  have 10: "set del = {kf \<in> set kfs. kf_id kf \<noteq> ident}" by (auto simp: d)
  have 11: "ident \<notin> kf_id ` set kfs \<longrightarrow> del = kfs"
    by (auto simp: d filter_id_conv)
  show ?thesis by (intro conjI 1 2 3 4 5 6 7 8 d 9 10 11)
qed

theorem keyframe_store_frame_witness:
  "distinct (map kf_id (keyframes idle_state)) \<and>
   map kf_id (keyframes idle_state) = [''a'', ''b''] \<and>
   keyframes (handleUpdateKeyframeDuration ''b'' 250 idle_state) = [kf_a, kf_b\<lparr>duration := 250\<rparr>] \<and>
   keyframes (handleDeleteKeyframe ''a'' idle_state) = [kf_b] \<and>
   keyframes (handleUpdateKeyframeDuration ''z'' 250 idle_state) = [kf_a, kf_b] \<and>
   keyframes (handleDeleteKeyframe ''z'' idle_state) = [kf_a, kf_b]"
proof -
  have k: "keyframes idle_state = [kf_a, kf_b]" by (simp add: idle_fields example_timeline_def)
  have ids: "kf_id kf_a = ''a''" "kf_id kf_b = ''b''" by (simp_all add: kf_a_def kf_b_def)
  have dist: "distinct (map kf_id (keyframes idle_state))" by (simp add: k ids)
  have b: "kf_b \<in> set (keyframes idle_state)" and a: "kf_a \<in> set (keyframes idle_state)"
    by (simp_all add: k)
  have z: "''z'' \<notin> kf_id ` set (keyframes idle_state)" by (simp add: k ids)
  note fb = keyframe_store_frame [of "''b''" 250 idle_state]
  note fa = keyframe_store_frame [of "''a''" 250 idle_state]
  note fz = keyframe_store_frame [of "''z''" 250 idle_state]
  have 1: "keyframes (handleUpdateKeyframeDuration ''b'' 250 idle_state) =
             map (\<lambda>kf. if kf_id kf = ''b'' then kf\<lparr>duration := 250\<rparr> else kf) (keyframes idle_state)"
    using fb by (intro nth_equalityI) simp_all
  have 2: "keyframes (handleDeleteKeyframe ''a'' idle_state) =
             filter (\<lambda>kf. kf_id kf \<noteq> ''a'') (keyframes idle_state)"
    using fa by blast
  have 3: "keyframes (handleUpdateKeyframeDuration ''z'' 250 idle_state) = keyframes idle_state"
    using fz z by blast
  have 4: "keyframes (handleDeleteKeyframe ''z'' idle_state) = keyframes idle_state"
    using fz z by blast
  show ?thesis
    by (simp add: 1 2 3 4) (simp add: k ids)
qed

section \<open>Starting a recording\<close>

text \<open>
  Claim C6. With fewer than two keyframes \<^verbatim>\<open>handleExportVideo\<close> refuses with the
  alert "Need at least 2 keyframes to record." and changes nothing: the playing flag, the
  recording flag and the timeline are as before. With at least two keyframes it sets the
  recording and the playing flag.
\<close>

theorem handleExportVideo_guard:
  "(length (keyframes s) < 2 \<longrightarrow>
      handleExportVideo s = Inl (Alert ''Need at least 2 keyframes to record.'') \<and>
      state_after s (handleExportVideo s) = s) \<and>
   (2 \<le> length (keyframes s) \<longrightarrow>
      handleExportVideo s = Inr (s\<lparr>isRecording := True, isPlaying := True\<rparr>) \<and>
      isRecording (state_after s (handleExportVideo s)) \<and>
      isPlaying (state_after s (handleExportVideo s)) \<and>
      keyframes (state_after s (handleExportVideo s)) = keyframes s)"
  by (simp add: handleExportVideo_def state_after_def)

theorem handleExportVideo_guard_witness:
  "length (keyframes one_keyframe_state) < 2 \<and>
   handleExportVideo one_keyframe_state = Inl (Alert ''Need at least 2 keyframes to record.'') \<and>
   \<not> isPlaying (state_after one_keyframe_state (handleExportVideo one_keyframe_state)) \<and>
   \<not> isRecording (state_after one_keyframe_state (handleExportVideo one_keyframe_state)) \<and>
   2 \<le> length (keyframes idle_state) \<and> \<not> isPlaying idle_state \<and> \<not> isRecording idle_state \<and>
   isRecording (state_after idle_state (handleExportVideo idle_state)) \<and>
   isPlaying (state_after idle_state (handleExportVideo idle_state))"
  using handleExportVideo_guard [of one_keyframe_state] handleExportVideo_guard [of idle_state]
  by (simp add: one_fields idle_fields ex_len state_after_def)

section \<open>Playing a single keyframe\<close>

text \<open>
  Claim C8. \<^verbatim>\<open>handlePlayToggle\<close> starts playing with a single keyframe. In a
  playing state with fewer than two keyframes a tick returns the state as it is: the
  rendered pose, the time anchor and the number of \<^verbatim>\<open>onLoopEnd\<close> calls are
  unchanged.
\<close>

theorem single_keyframe_tick:
  "(length (keyframes s) = 1 \<and> \<not> isPlaying s \<longrightarrow>
      isPlaying (handlePlayToggle s) \<and> keyframes (handlePlayToggle s) = keyframes s) \<and>
   (isPlaying s \<and> length (keyframes s) < 2 \<longrightarrow>
      useFrame now s = s \<and>
      renderedPose (useFrame now s) = renderedPose s \<and>
      startTimeRef (useFrame now s) = startTimeRef s \<and>
      loopEndCalls (useFrame now s) = loopEndCalls s)"
  by (simp add: handlePlayToggle_def useFrame_def)

theorem single_keyframe_tick_witness:
  "length (keyframes one_keyframe_state) = 1 \<and> \<not> isPlaying one_keyframe_state \<and>
   isPlaying (handlePlayToggle one_keyframe_state) \<and>
   length (keyframes (handlePlayToggle one_keyframe_state)) < 2 \<and>
   useFrame 16 (handlePlayToggle one_keyframe_state) = handlePlayToggle one_keyframe_state \<and>
   playbackPose (useFrame 16 (handlePlayToggle one_keyframe_state)) = None \<and>
   startTimeRef (useFrame 16 (handlePlayToggle one_keyframe_state)) = 0 \<and>
   loopEndCalls (useFrame 16 (handlePlayToggle one_keyframe_state)) = 0"
proof -
  have a: "isPlaying (handlePlayToggle one_keyframe_state)"
    "keyframes (handlePlayToggle one_keyframe_state) = keyframes one_keyframe_state"
    using single_keyframe_tick [of one_keyframe_state 16] by (simp_all add: one_fields)
  then have b: "useFrame 16 (handlePlayToggle one_keyframe_state) = handlePlayToggle one_keyframe_state"
    using single_keyframe_tick [of "handlePlayToggle one_keyframe_state" 16]
    by (simp add: one_fields)
  show ?thesis
    by (simp add: a b one_fields)
      (simp add: handlePlayToggle_def one_keyframe_state_def handleAddKeyframe_def initial_state_def)
qed

section \<open>Stopping with the play toggle\<close>

text \<open>
  Claim C10. \<^verbatim>\<open>handlePlayToggle\<close>, called while \<^verbatim>\<open>isPlaying\<close> is set and at
  least one keyframe exists, clears the playing and the recording flag and discards the
  playback pose without calling \<^verbatim>\<open>onLoopEnd\<close>; no later tick calls it either, so
  a recording ended this way never fires the loop end.
\<close>

theorem play_toggle_stops_recording:
  assumes "isPlaying s" and "1 \<le> length (keyframes s)"
  shows "handlePlayToggle s = s\<lparr>isPlaying := False, playbackPose := None, isRecording := False\<rparr> \<and>
         \<not> isPlaying (handlePlayToggle s) \<and> \<not> isRecording (handlePlayToggle s) \<and>
         playbackPose (handlePlayToggle s) = None \<and>
         loopEndCalls (handlePlayToggle s) = loopEndCalls s \<and>
         loopEndCalls (ticks nows (handlePlayToggle s)) = loopEndCalls s \<and>
         \<not> isRecording (ticks nows (handlePlayToggle s))"
proof -
  have "keyframes s \<noteq> []" using assms(2) by auto
  then have e: "handlePlayToggle s = s\<lparr>isPlaying := False, playbackPose := None, isRecording := False\<rparr>"
    using assms(1) by (simp add: handlePlayToggle_def)
  then have "\<not> isPlaying (handlePlayToggle s)" by simp
  then have "ticks nows (handlePlayToggle s) = handlePlayToggle s" by (rule ticks_idle)
  then show ?thesis using e by simp
qed

theorem play_toggle_stops_recording_witness:
  "isPlaying recording_state \<and> isRecording recording_state \<and>
   1 \<le> length (keyframes recording_state) \<and>
   \<not> isPlaying (handlePlayToggle recording_state) \<and>
   \<not> isRecording (handlePlayToggle recording_state) \<and>
   playbackPose (handlePlayToggle recording_state) = None \<and>
   loopEndCalls (ticks [1000, 1600, 3200] (handlePlayToggle recording_state)) = 0"
proof -
  have h: "1 \<le> length (keyframes recording_state)" by (simp add: rec_fields ex_len)
  note inst = play_toggle_stops_recording [OF rec_fields(1) h, of "[1000, 1600, 3200]"]
  have "\<not> isPlaying (handlePlayToggle recording_state)"
    and "\<not> isRecording (handlePlayToggle recording_state)"
    and "playbackPose (handlePlayToggle recording_state) = None"
    and "loopEndCalls (ticks [1000, 1600, 3200] (handlePlayToggle recording_state)) =
           loopEndCalls recording_state"
    using inst by blast+
  then show ?thesis using h by (simp add: rec_fields del: ticks.simps)
qed

end
